theory Spec2Isabelle
  imports Complex_Main "HOL-Library.AList" "HOL-Library.Multiset"
begin

section \<open>FileIndex: the synchronisation of a path index and its keyword search\<close>

text \<open>
  A shallow embedding of \<^verbatim>\<open>fileindex.py\<close>: \<^verbatim>\<open>index_files\<close> reconciles the
  table \<^verbatim>\<open>files(path, mtime)\<close> of an SQLite database with a directory tree, and
  \<^verbatim>\<open>find_files\<close> answers a conjunctive \<^verbatim>\<open>LIKE\<close> query over the stored paths.

  Strings are lists of characters; letter case is the ASCII one. A modification time is a
  number that the program only compares for equality.
\<close>

type_synonym path = string
type_synonym mtime = real

subsection \<open>Strings\<close>

text \<open>\<^verbatim>\<open>str.lower\<close>, on ASCII letters.\<close>

definition lower_char :: "char \<Rightarrow> char" where
  "lower_char c =
     (case map_of (zip ''ABCDEFGHIJKLMNOPQRSTUVWXYZ'' ''abcdefghijklmnopqrstuvwxyz'') c of
        Some l \<Rightarrow> l
      | None \<Rightarrow> c)"

definition lower :: "string \<Rightarrow> string" where
  "lower s = map lower_char s"

text \<open>\<^verbatim>\<open>s.startswith(c)\<close> for a one-character prefix.\<close>

fun startswith :: "string \<Rightarrow> char \<Rightarrow> bool" where
  "startswith [] c = False"
| "startswith (x # xs) c = (x = c)"

text \<open>\<^verbatim>\<open>sep.join(parts)\<close>.\<close>

fun str_join :: "string \<Rightarrow> string list \<Rightarrow> string" where
  "str_join sep [] = []"
| "str_join sep [x] = x"
| "str_join sep (x # y # ys) = x @ sep @ str_join sep (y # ys)"

subsection \<open>Paths (\<^verbatim>\<open>posixpath\<close>)\<close>

text \<open>
  \<^verbatim>\<open>os.path.join(a, b)\<close>: an absolute \<^verbatim>\<open>b\<close> replaces \<^verbatim>\<open>a\<close>; otherwise the two
  are put together with exactly one separator between them.
\<close>

definition join :: "path \<Rightarrow> string \<Rightarrow> path" where
  "join a b =
     (if startswith b CHR ''/'' then b
      else if a = [] \<or> last a = CHR ''/'' then a @ b
      else a @ ''/'' @ b)"

text \<open>\<^verbatim>\<open>s.rfind(c)\<close>: the index of the last occurrence of \<^verbatim>\<open>c\<close>, or \<open>-1\<close>.\<close>

fun rfind :: "string \<Rightarrow> char \<Rightarrow> int" where
  "rfind [] c = -1"
| "rfind (x # xs) c =
     (let r = rfind xs c in if 0 \<le> r then r + 1 else if x = c then 0 else -1)"

text \<open>
  \<^verbatim>\<open>os.path.splitext(p)\<close>: the extension starts at the last dot of the last component,
  unless that component has only dots before it (\<^verbatim>\<open>.bashrc\<close> has no extension).
\<close>

definition splitext :: "path \<Rightarrow> string \<times> string" where
  "splitext p =
     (let sepIndex = rfind p CHR ''/'';
          dotIndex = rfind p CHR ''.''
      in if sepIndex < dotIndex \<and>
            list_ex (\<lambda>c. c \<noteq> CHR ''.'')
              (take (nat dotIndex - nat (sepIndex + 1)) (drop (nat (sepIndex + 1)) p))
         then (take (nat dotIndex) p, drop (nat dotIndex) p)
         else (p, []))"

subsection \<open>The file system\<close>

text \<open>
  A directory lists its entries by name. An entry that is not a directory carries what
  \<^verbatim>\<open>os.path.getmtime\<close> gives for it when the scan reaches it: the modification time, or
  \<open>None\<close> when the call raises \<^verbatim>\<open>OSError\<close> (permission denied, a broken link, a file
  removed since the directory was listed).
\<close>

datatype fsnode = File "mtime option" | Dir "(string \<times> fsnode) list"

type_synonym entries = "(string \<times> fsnode) list"

text \<open>What a path names: \<open>None\<close> when nothing is there (\<^verbatim>\<open>os.path.exists\<close> is false).\<close>

type_synonym filesystem = "path \<Rightarrow> fsnode option"

fun nondirs :: "entries \<Rightarrow> (string \<times> mtime option) list" where
  "nondirs [] = []"
| "nondirs ((f, File st) # rest) = (f, st) # nondirs rest"
| "nondirs ((d, Dir sub) # rest) = nondirs rest"

text \<open>
  \<^verbatim>\<open>os.walk(top)\<close>, top-down: it yields the directory with its non-directory entries,
  then walks the subdirectories that the loop body left in \<^verbatim>\<open>dirs\<close>. The body's
  assignment to \<^verbatim>\<open>dirs[:]\<close> is the predicate \<open>keep\<close> on a subdirectory's name.
\<close>

fun walk :: "(string \<Rightarrow> bool) \<Rightarrow> path \<Rightarrow> entries \<Rightarrow> (path \<times> (string \<times> mtime option) list) list"
  and walk_dirs :: "(string \<Rightarrow> bool) \<Rightarrow> path \<Rightarrow> entries \<Rightarrow> (path \<times> (string \<times> mtime option) list) list"
where
  "walk keep dir es = (dir, nondirs es) # walk_dirs keep dir es"
| "walk_dirs keep dir [] = []"
| "walk_dirs keep dir ((f, File st) # rest) = walk_dirs keep dir rest"
| "walk_dirs keep dir ((d, Dir sub) # rest) =
     (if keep d then walk keep (join dir d) sub else []) @ walk_dirs keep dir rest"

subsection \<open>The database\<close>

text \<open>
  The table \<^verbatim>\<open>files (path TEXT PRIMARY KEY, mtime REAL)\<close> is its rows in storage order.
  The database file is unusable (\<^verbatim>\<open>sqlite3.connect\<close> raises), or not an SQLite database
  (the first statement raises), or a database in which the table may not exist yet.
\<close>

type_synonym table = "(path \<times> mtime) list"

datatype database = Unopenable | NotADatabase | Database "table option"

datatype sql_error = OperationalError | DatabaseError | IntegrityError | ProgrammingError

datatype stmt =
    CreateTable
  | SelectAll
  | Update path mtime
  | Insert path mtime
  | Delete path
  | Select string "string list"
  | Commit

record store =
  db :: database
  open_conns :: nat
  executed :: "stmt list"

definition connect :: "store \<Rightarrow> sql_error + store" where
  "connect s =
     (case db s of
        Unopenable \<Rightarrow> Inl OperationalError
      | _ \<Rightarrow> Inr (s\<lparr>open_conns := open_conns s + 1\<rparr>))"

definition close :: "store \<Rightarrow> store" where
  "close s = s\<lparr>open_conns := open_conns s - 1\<rparr>"

text \<open>\<^verbatim>\<open>CREATE TABLE IF NOT EXISTS files (path TEXT PRIMARY KEY, mtime REAL)\<close>\<close>

definition create_table :: "store \<Rightarrow> sql_error + store" where
  "create_table s =
     (case db s of
        Unopenable \<Rightarrow> Inl OperationalError
      | NotADatabase \<Rightarrow> Inl DatabaseError
      | Database None \<Rightarrow> Inr (s\<lparr>db := Database (Some []), executed := executed s @ [CreateTable]\<rparr>)
      | Database (Some t) \<Rightarrow> Inr (s\<lparr>executed := executed s @ [CreateTable]\<rparr>))"

text \<open>\<^verbatim>\<open>SELECT path, mtime FROM files\<close> and \<^verbatim>\<open>fetchall\<close>\<close>

definition select_all :: "store \<Rightarrow> sql_error + (table \<times> store)" where
  "select_all s =
     (case db s of
        Unopenable \<Rightarrow> Inl OperationalError
      | NotADatabase \<Rightarrow> Inl DatabaseError
      | Database None \<Rightarrow> Inl OperationalError
      | Database (Some t) \<Rightarrow> Inr (t, s\<lparr>executed := executed s @ [SelectAll]\<rparr>))"

text \<open>
  The three statements of the scan, on the rows of the open transaction.
  \<^verbatim>\<open>INSERT\<close> raises \<^verbatim>\<open>IntegrityError\<close> on a path that is already a key.
\<close>

definition sql_update :: "path \<Rightarrow> mtime \<Rightarrow> table \<Rightarrow> table" where
  "sql_update p m t = map (\<lambda>(q, old). if q = p then (q, m) else (q, old)) t"

definition sql_insert :: "path \<Rightarrow> mtime \<Rightarrow> table \<Rightarrow> sql_error + table" where
  "sql_insert p m t = (if p \<in> fst ` set t then Inl IntegrityError else Inr (t @ [(p, m)]))"

definition sql_delete :: "path \<Rightarrow> table \<Rightarrow> table" where
  "sql_delete p t = filter (\<lambda>(q, old). q \<noteq> p) t"

subsection \<open>\<^verbatim>\<open>index_files\<close>\<close>

datatype scan_error = CannotAccess path | ErrorWith path

datatype index_error = PathDoesNotExist | NotADirectory | DatabaseFailure sql_error

text \<open>
  The local variables of the scan: the rows and the statements of the open transaction,
  \<^verbatim>\<open>scanned\<close>, \<^verbatim>\<open>errors\<close>, \<^verbatim>\<open>excluded\<close> and \<^verbatim>\<open>deleted\<close>.
\<close>

record scan =
  tbl :: table
  stmts :: "stmt list"
  scanned :: "path set"
  errors :: "scan_error list"
  excluded :: nat
  deleted :: nat

text \<open>\<^verbatim>\<open>{row[0]: row[1] for row in c.fetchall()}\<close>: a dictionary in insertion order.\<close>

definition dict_of_rows :: "table \<Rightarrow> table" where
  "dict_of_rows rows = fold (\<lambda>(p, m) d. AList.update p m d) rows []"

text \<open>A default argument \<^verbatim>\<open>None\<close> stands for the empty list.\<close>

fun or_empty :: "'a list option \<Rightarrow> 'a list" where
  "or_empty None = []"
| "or_empty (Some xs) = xs"

definition normalize_extensions :: "string list \<Rightarrow> string list" where
  "normalize_extensions exts =
     map (\<lambda>ext. if startswith ext CHR ''.'' then lower ext else CHR ''.'' # lower ext) exts"

text \<open>
  The body of the loop over \<^verbatim>\<open>files\<close>, for the file \<open>f\<close> of the directory \<open>dir\<close>.
  \<open>fnmatch\<close> is \<^verbatim>\<open>fnmatch.fnmatch\<close> of the standard library, a parameter here:
  \<open>fnmatch name pattern\<close>.
\<close>

definition visit_file ::
  "(string \<Rightarrow> string \<Rightarrow> bool) \<Rightarrow> string list \<Rightarrow> string list \<Rightarrow> table \<Rightarrow>
   path \<times> string \<times> mtime option \<Rightarrow> scan \<Rightarrow> scan" where
  "visit_file fnmatch exclude_extensions exclude_patterns existing v sc =
     (case v of (dir, f, st) \<Rightarrow>
        let p = join dir f;
            ext = snd (splitext p)
        in if lower ext \<in> set exclude_extensions then sc\<lparr>excluded := excluded sc + 1\<rparr>
           else if list_ex (\<lambda>pattern. fnmatch f pattern) exclude_patterns
             then sc\<lparr>excluded := excluded sc + 1\<rparr>
           else (case st of
               None \<Rightarrow> sc\<lparr>errors := errors sc @ [CannotAccess p]\<rparr>
             | Some m \<Rightarrow>
                 let sc1 = sc\<lparr>scanned := insert p (scanned sc)\<rparr>
                 in (case map_of existing p of
                       Some old \<Rightarrow>
                         if old \<noteq> m
                         then sc1\<lparr>tbl := sql_update p m (tbl sc1), stmts := stmts sc1 @ [Update p m]\<rparr>
                         else sc1
                     | None \<Rightarrow>
                         (case sql_insert p m (tbl sc1) of
                            Inr t \<Rightarrow> sc1\<lparr>tbl := t, stmts := stmts sc1 @ [Insert p m]\<rparr>
                          | Inl e \<Rightarrow> sc1\<lparr>errors := errors sc1 @ [ErrorWith p]\<rparr>))))"

text \<open>The files that the two nested loops reach, in order, each with its directory.\<close>

definition visits :: "(path \<times> (string \<times> mtime option) list) list \<Rightarrow> (path \<times> string \<times> mtime option) list" where
  "visits triples = concat (map (\<lambda>(dir, files). map (\<lambda>(f, st). (dir, f, st)) files) triples)"

text \<open>The loop that removes the rows whose path the scan did not reach.\<close>

definition delete_unscanned :: "path \<Rightarrow> scan \<Rightarrow> scan" where
  "delete_unscanned p sc =
     (if p \<notin> scanned sc
      then sc\<lparr>tbl := sql_delete p (tbl sc), stmts := stmts sc @ [Delete p], deleted := deleted sc + 1\<rparr>
      else sc)"

definition commit :: "scan \<Rightarrow> store \<Rightarrow> store" where
  "commit sc s = s\<lparr>db := Database (Some (tbl sc)), executed := executed s @ stmts sc @ [Commit]\<rparr>"

text \<open>
  \<^verbatim>\<open>index_files\<close>. \<open>Inl\<close> is the return value \<^verbatim>\<open>False\<close>, with the reason that the
  program prints; \<open>Inr\<close> is \<^verbatim>\<open>True\<close>, with the variables that the summary is printed from.
\<close>

definition index_files ::
  "(string \<Rightarrow> string \<Rightarrow> bool) \<Rightarrow> filesystem \<Rightarrow> path \<Rightarrow>
   string list option \<Rightarrow> string list option \<Rightarrow> string list option \<Rightarrow> bool \<Rightarrow>
   store \<Rightarrow> (index_error + scan) \<times> store" where
  "index_files fnmatch fs dataset_path exclude_extensions exclude_patterns exclude_directories
     enable_exclusions s =
     (let exclude_extensions = (if \<not> enable_exclusions then [] else or_empty exclude_extensions);
          exclude_patterns = (if \<not> enable_exclusions then [] else or_empty exclude_patterns);
          exclude_directories = (if \<not> enable_exclusions then [] else or_empty exclude_directories);
          exclude_extensions = normalize_extensions exclude_extensions
      in case fs dataset_path of
           None \<Rightarrow> (Inl PathDoesNotExist, s)
         | Some (File st) \<Rightarrow> (Inl NotADirectory, s)
         | Some (Dir es) \<Rightarrow>
             (case connect s of
                Inl e \<Rightarrow> (Inl (DatabaseFailure e), s)
              | Inr s1 \<Rightarrow>
                  (case create_table s1 of
                     Inl e \<Rightarrow> (Inl (DatabaseFailure e), s1)
                   | Inr s2 \<Rightarrow>
                       (case select_all s2 of
                          Inl e \<Rightarrow> (Inl (DatabaseFailure e), s2)
                        | Inr (rows, s3) \<Rightarrow>
                            let existing = dict_of_rows rows;
                                sc0 = \<lparr>tbl = rows, stmts = [], scanned = {}, errors = [],
                                       excluded = 0, deleted = 0\<rparr>;
                                keep = (\<lambda>d. \<not> list_ex (\<lambda>pattern. fnmatch d pattern) exclude_directories);
                                sc1 = fold (visit_file fnmatch exclude_extensions exclude_patterns existing)
                                        (visits (walk keep dataset_path es)) sc0;
                                sc2 = fold delete_unscanned (map fst existing) sc1
                            in (Inr sc2, close (commit sc2 s3))))))"

subsection \<open>\<^verbatim>\<open>find_files\<close>\<close>

text \<open>
  The operator \<^verbatim>\<open>LIKE\<close> of SQLite, \<open>like pattern text\<close>: \<^verbatim>\<open>%\<close> stands for any
  sequence of characters, \<^verbatim>\<open>_\<close> for any one character, and any other character for
  itself, upper and lower case ASCII letters being the same.
\<close>

fun like :: "string \<Rightarrow> string \<Rightarrow> bool" where
  "like [] s = (s = [])"
| "like (p # ps) [] = (p = CHR ''%'' \<and> like ps [])"
| "like (p # ps) (c # cs) =
     (if p = CHR ''%'' then like ps (c # cs) \<or> like (p # ps) cs
      else if p = CHR ''_'' then like ps cs
      else lower_char p = lower_char c \<and> like ps cs)"

text \<open>\<open>strip_prefix p s\<close>: what follows the prefix \<open>p\<close> in \<open>s\<close>.\<close>

fun strip_prefix :: "string \<Rightarrow> string \<Rightarrow> string option" where
  "strip_prefix [] s = Some s"
| "strip_prefix (x # xs) [] = None"
| "strip_prefix (x # xs) (y # ys) = (if x = y then strip_prefix xs ys else None)"

text \<open>
  The conditions of a \<^verbatim>\<open>WHERE\<close> clause, as far as the program writes them: one or more
  \<^verbatim>\<open>path LIKE ?\<close> joined by \<^verbatim>\<open>AND\<close>. The result is their number, or \<open>None\<close>
  for a text that is no expression (the empty text among them). The second argument
  bounds the number of conditions read.
\<close>

fun parse_conditions :: "string \<Rightarrow> nat \<Rightarrow> nat option" where
  "parse_conditions w 0 = None"
| "parse_conditions w (Suc n) =
     (case strip_prefix ''path LIKE ?'' w of
        None \<Rightarrow> None
      | Some r \<Rightarrow>
          if r = [] then Some 1
          else (case strip_prefix '' AND '' r of
                  None \<Rightarrow> None
                | Some r' \<Rightarrow> map_option Suc (parse_conditions r' n)))"

text \<open>
  \<^verbatim>\<open>c.execute(query, params)\<close> and \<^verbatim>\<open>c.fetchall()\<close> for the queries of \<^verbatim>\<open>find_files\<close>:
  a syntax error, a missing table and a wrong number of parameters raise.
\<close>

definition execute_select :: "string \<Rightarrow> string list \<Rightarrow> store \<Rightarrow> sql_error + (path list \<times> store)" where
  "execute_select query params s =
     (case db s of
        Unopenable \<Rightarrow> Inl OperationalError
      | NotADatabase \<Rightarrow> Inl DatabaseError
      | Database d \<Rightarrow>
          (case strip_prefix ''SELECT path FROM files WHERE '' query of
             None \<Rightarrow> Inl OperationalError
           | Some w \<Rightarrow>
               (case parse_conditions w (Suc (length w)) of
                  None \<Rightarrow> Inl OperationalError
                | Some n \<Rightarrow>
                    (case d of
                       None \<Rightarrow> Inl OperationalError
                     | Some t \<Rightarrow>
                         if n \<noteq> length params then Inl ProgrammingError
                         else Inr (filter (\<lambda>p. list_all (\<lambda>pat. like pat p) params) (map fst t),
                                   s\<lparr>executed := executed s @ [Select query params]\<rparr>)))))"

text \<open>\<^verbatim>\<open>find_files\<close>: \<open>None\<close> is the return value \<^verbatim>\<open>None\<close> of the two handlers.\<close>

definition find_files :: "string list \<Rightarrow> store \<Rightarrow> path list option \<times> store" where
  "find_files keywords s =
     (case connect s of
        Inl e \<Rightarrow> (None, s)
      | Inr s1 \<Rightarrow>
          let where_clause = str_join '' AND '' (map (\<lambda>_. ''path LIKE ?'') keywords);
              params = map (\<lambda>kw. ''%'' @ kw @ ''%'') keywords;
              query = ''SELECT path FROM files WHERE '' @ where_clause
          in (case execute_select query params s1 of
                Inl e \<Rightarrow> (None, s1)
              | Inr (results, s2) \<Rightarrow> (Some results, close s2)))"

subsection \<open>The vocabulary of the claims\<close>

text \<open>
  Well-formed directory listings: a name is not empty and has no separator, and no
  directory lists a name twice. Every listing that \<^verbatim>\<open>os.walk\<close> reads is of this kind.
\<close>

fun wf_entries :: "entries \<Rightarrow> bool" where
  "wf_entries [] = True"
| "wf_entries ((n, node) # rest) =
     (n \<noteq> [] \<and> CHR ''/'' \<notin> set n \<and> n \<notin> fst ` set rest \<and>
      (case node of File st \<Rightarrow> True | Dir sub \<Rightarrow> wf_entries sub) \<and>
      wf_entries rest)"

text \<open>
  The constraint \<^verbatim>\<open>PRIMARY KEY\<close> of the table: no path is stored twice.
\<close>

definition wf_store :: "store \<Rightarrow> bool" where
  "wf_store s = (case db s of Database (Some t) \<Rightarrow> distinct (map fst t) | _ \<Rightarrow> True)"

text \<open>The rows of the table, none when it does not exist yet.\<close>

definition rows_of :: "database \<Rightarrow> table" where
  "rows_of d = (case d of Database (Some t) \<Rightarrow> t | _ \<Rightarrow> [])"

text \<open>
  The rule lists that the scan works with: with \<^verbatim>\<open>enable_exclusions\<close> false they are
  empty whatever was configured.
\<close>

definition effective :: "bool \<Rightarrow> string list option \<Rightarrow> string list" where
  "effective enable_exclusions xs = (if \<not> enable_exclusions then [] else or_empty xs)"

text \<open>
  The files that a run reaches, given the directory patterns in force: what the two
  nested loops of \<^verbatim>\<open>index_files\<close> iterate over.
\<close>

definition scan_files ::
  "(string \<Rightarrow> string \<Rightarrow> bool) \<Rightarrow> string list \<Rightarrow> path \<Rightarrow> entries \<Rightarrow> (path \<times> string \<times> mtime option) list" where
  "scan_files fnmatch exclude_directories dataset_path es =
     visits (walk (\<lambda>d. \<not> list_ex (\<lambda>pattern. fnmatch d pattern) exclude_directories) dataset_path es)"

text \<open>The full path that the loop body builds for a file.\<close>

definition path_of :: "path \<times> string \<times> mtime option \<Rightarrow> path" where
  "path_of v = (case v of (dir, f, st) \<Rightarrow> join dir f)"

text \<open>
  The two tests of the loop body that end in \<^verbatim>\<open>continue\<close>: the lower-cased extension
  is an excluded one, or the base name matches an exclusion pattern.
\<close>

definition excluded_by ::
  "(string \<Rightarrow> string \<Rightarrow> bool) \<Rightarrow> string list \<Rightarrow> string list \<Rightarrow> path \<times> string \<times> mtime option \<Rightarrow> bool" where
  "excluded_by fnmatch exclude_extensions exclude_patterns v =
     (case v of (dir, f, st) \<Rightarrow>
        lower (snd (splitext (join dir f))) \<in> set exclude_extensions \<or>
        list_ex (\<lambda>pattern. fnmatch f pattern) exclude_patterns)"

text \<open>
  The files that pass both tests and whose modification time could be read, as the rows
  \<open>(path, mtime)\<close> they stand for.
\<close>

fun accepted ::
  "(string \<Rightarrow> string \<Rightarrow> bool) \<Rightarrow> string list \<Rightarrow> string list \<Rightarrow>
   (path \<times> string \<times> mtime option) list \<Rightarrow> (path \<times> mtime) list" where
  "accepted fnmatch xs ps [] = []"
| "accepted fnmatch xs ps ((dir, f, st) # vs) =
     (case st of
        Some m \<Rightarrow> if excluded_by fnmatch xs ps (dir, f, st) then accepted fnmatch xs ps vs
                  else (join dir f, m) # accepted fnmatch xs ps vs
      | None \<Rightarrow> accepted fnmatch xs ps vs)"

text \<open>The files that pass both tests and whose modification time could not be read.\<close>

definition unreadable :: "(string \<Rightarrow> string \<Rightarrow> bool) \<Rightarrow> string list \<Rightarrow> string list \<Rightarrow>
    (path \<times> string \<times> mtime option) list \<Rightarrow> (path \<times> string \<times> mtime option) list" where
  "unreadable fnmatch xs ps vs =
     filter (\<lambda>v. \<not> excluded_by fnmatch xs ps v \<and> snd (snd v) = None) vs"

text \<open>
  The statements that the scan executes for those rows against the rows \<open>t0\<close> read at
  the start: an insert for a new path, an update for a changed time, nothing otherwise.
\<close>

definition stmts_for :: "table \<Rightarrow> (path \<times> mtime) list \<Rightarrow> stmt list" where
  "stmts_for t0 acc =
     concat (map (\<lambda>(p, m). case map_of t0 p of
                               None \<Rightarrow> [Insert p m]
                             | Some old \<Rightarrow> if old \<noteq> m then [Update p m] else []) acc)"

text \<open>
  What holds between two files of the scan: the rows of the transaction are the rows
  read at the start overwritten by the accepted files so far.
\<close>

definition scan_inv :: "table \<Rightarrow> (path \<times> mtime) list \<Rightarrow> scan \<Rightarrow> bool" where
  "scan_inv t0 acc sc \<longleftrightarrow>
     distinct (map fst (tbl sc)) \<and>
     map_of (tbl sc) = map_of t0 ++ map_of acc \<and>
     stmts sc = stmts_for t0 acc \<and>
     scanned sc = fst ` set acc \<and>
     deleted sc = 0"

text \<open>
  Every file below a directory, with no directory left out, and the files below the
  subdirectories that \<open>keep\<close> rejects (at any depth below the root).
\<close>

definition all_files :: "path \<Rightarrow> entries \<Rightarrow> path list" where
  "all_files dir es = map path_of (visits (walk (\<lambda>d. True) dir es))"

fun pruned_files :: "(string \<Rightarrow> bool) \<Rightarrow> path \<Rightarrow> entries \<Rightarrow> path list" where
  "pruned_files keep dir [] = []"
| "pruned_files keep dir ((f, File st) # rest) = pruned_files keep dir rest"
| "pruned_files keep dir ((d, Dir sub) # rest) =
     (if keep d then pruned_files keep (join dir d) sub else all_files (join dir d) sub)
     @ pruned_files keep dir rest"

text \<open>A directory path with its trailing separator, as \<open>join\<close> puts it before a name.\<close>

definition dir_prefix :: "path \<Rightarrow> path" where
  "dir_prefix dir = (if dir = [] \<or> last dir = CHR ''/'' then dir else dir @ ''/'')"

subsection \<open>Concrete inputs\<close>

text \<open>A store of two indexed paths, and a file system in which the path names a file.\<close>

definition store1 :: store where
  "store1 = \<lparr>db = Database (Some [(''/data/report.txt'', 1), (''/data/notes.md'', 2)]),
             open_conns = 0, executed = []\<rparr>"

definition fs_file :: filesystem where
  "fs_file p = (if p = ''/data/report.txt'' then Some (File (Some 1)) else None)"

text \<open>
  A matcher for the concrete inputs, \<open>glob name pattern\<close>: \<^verbatim>\<open>*\<close> stands for any
  sequence of characters and \<^verbatim>\<open>?\<close> for any one character.
\<close>

fun glob :: "string \<Rightarrow> string \<Rightarrow> bool" where
  "glob [] [] = True"
| "glob (c # cs) [] = False"
| "glob [] (p # ps) = (p = CHR ''*'' \<and> glob [] ps)"
| "glob (c # cs) (p # ps) =
     (if p = CHR ''*'' then glob (c # cs) ps \<or> glob cs (p # ps)
      else if p = CHR ''?'' then glob cs ps
      else p = c \<and> glob cs ps)"

text \<open>
  The root \<^verbatim>\<open>/data\<close> holds \<^verbatim>\<open>report.txt\<close>, the directory \<^verbatim>\<open>tmp\<close> with
  \<^verbatim>\<open>cache.tmp\<close>, and \<^verbatim>\<open>lnk\<close>, whose modification time cannot be read.
\<close>

definition tree_data :: entries where
  "tree_data = [(''report.txt'', File (Some 1)),
                (''tmp'', Dir [(''cache.tmp'', File (Some 2))]),
                (''lnk'', File None)]"

definition fs_data :: filesystem where
  "fs_data p = (if p = ''/data'' then Some (Dir tree_data) else None)"

text \<open>
  An empty database, and one that already indexes \<^verbatim>\<open>lnk\<close>, with the outcome of a
  run on the latter.
\<close>

definition store0 :: store where
  "store0 = \<lparr>db = Database None, open_conns = 0, executed = []\<rparr>"




text \<open>The outcome of indexing everything, and of indexing without \<^verbatim>\<open>tmp\<close> or \<^verbatim>\<open>.tmp\<close>.\<close>

definition scan_all :: scan where
  "scan_all = \<lparr>tbl = [(''/data/report.txt'', 1), (''/data/tmp/cache.tmp'', 2)],
          stmts = [Insert ''/data/report.txt'' 1, Insert ''/data/tmp/cache.tmp'' 2],
          scanned = {''/data/report.txt'', ''/data/tmp/cache.tmp''},
          errors = [CannotAccess ''/data/lnk''], excluded = 0, deleted = 0\<rparr>"

definition store_all :: store where
  "store_all = \<lparr>db = Database (Some [(''/data/report.txt'', 1), (''/data/tmp/cache.tmp'', 2)]),
      open_conns = 0,
      executed = [CreateTable, SelectAll, Insert ''/data/report.txt'' 1,
                  Insert ''/data/tmp/cache.tmp'' 2, Commit]\<rparr>"

definition scan_report :: scan where
  "scan_report = \<lparr>tbl = [(''/data/report.txt'', 1)],
          stmts = [Insert ''/data/report.txt'' 1],
          scanned = {''/data/report.txt''},
          errors = [CannotAccess ''/data/lnk''], excluded = 1, deleted = 0\<rparr>"

definition store_report :: store where
  "store_report = \<lparr>db = Database (Some [(''/data/report.txt'', 1)]),
      open_conns = 0,
      executed = [CreateTable, SelectAll, Insert ''/data/report.txt'' 1, Commit]\<rparr>"

section \<open>Keyword search\<close>

subsection \<open>The operator \<^verbatim>\<open>LIKE\<close>\<close>






lemma like_underscore: "like ''_'' s \<longleftrightarrow> length s = 1"
  by (cases s) auto







subsection \<open>The query of \<^verbatim>\<open>find_files\<close>\<close>




lemma parse_conditions_empty: "parse_conditions [] fuel = None"
  by (cases fuel) auto



lemma find_files_empty: "fst (find_files [] s) = None"
  by (simp add: find_files_def connect_def execute_select_def parse_conditions_empty
      split: database.splits option.splits)


subsection \<open>Evaluations on the concrete store\<close>





subsection \<open>Claims on \<^verbatim>\<open>find_files\<close>\<close>




text \<open>
  Claim C6, as stated, fails: with no keyword the query text ends in \<^verbatim>\<open>WHERE\<close>, the
  statement is rejected, and the result is \<^verbatim>\<open>None\<close>, not the list of every path.
\<close>

theorem find_files_empty_counterexample:
  "fst (find_files [] store1) \<noteq> Some [''/data/report.txt'', ''/data/notes.md'']"
  by (simp add: find_files_def connect_def execute_select_def store1_def)

text \<open>
  Claim C6, amended: \<^verbatim>\<open>find_files\<close> with an empty keyword list returns (it raises
  nothing), its result is the error value \<^verbatim>\<open>None\<close> whatever the store holds, and the
  database is unchanged.
\<close>

theorem find_files_empty_keywords:
  "fst (find_files [] s) = None \<and> db (snd (find_files [] s)) = db s"
  by (simp add: find_files_def connect_def execute_select_def parse_conditions_empty
      split: database.splits option.splits)

text \<open>
  Claim C9 asks for the connection to be closed on every exit. The evaluation below is
  of the two error exits that follow a successful \<^verbatim>\<open>connect\<close>: a search in a database
  without the table, and an indexing run on a file that is no database. Both return
  the failure value with one connection more open than before.
\<close>

theorem error_exit_leaves_connection_open:
  "find_files [''report''] \<lparr>db = Database None, open_conns = 0, executed = []\<rparr>
     = (None, \<lparr>db = Database None, open_conns = 1, executed = []\<rparr>) \<and>
   index_files (\<lambda>n p. n = p) (\<lambda>p. Some (Dir [])) ''/data'' None None None False
       \<lparr>db = NotADatabase, open_conns = 0, executed = []\<rparr>
     = (Inl (DatabaseFailure DatabaseError), \<lparr>db = NotADatabase, open_conns = 1, executed = []\<rparr>)"
  by (simp add: find_files_def index_files_def connect_def execute_select_def create_table_def)




section \<open>Synchronisation\<close>

subsection \<open>The table and the dictionary\<close>

lemma map_fst_sql_update: "map fst (sql_update p m t) = map fst t"
  by (induction t) (auto simp: sql_update_def)

lemma map_of_sql_update:
  "map_of (sql_update p m t) = (if p \<in> fst ` set t then (map_of t)(p \<mapsto> m) else map_of t)"
  by (induction t) (auto simp: sql_update_def fun_eq_iff)

lemma map_of_snoc: "p \<notin> fst ` set t \<Longrightarrow> map_of (t @ [(p, m)]) = (map_of t)(p \<mapsto> m)"
  by (induction t) (auto simp: fun_eq_iff)

lemma map_of_filter_key:
  "map_of (filter (\<lambda>(q, old). P q) t) = (\<lambda>q. if P q then map_of t q else None)"
  by (induction t) (auto simp: fun_eq_iff)

lemma update_fresh: "p \<notin> fst ` set d \<Longrightarrow> AList.update p m d = d @ [(p, m)]"
  by (induction d) auto

lemma fold_update_distinct:
  "distinct (map fst (d @ rows)) \<Longrightarrow> fold (\<lambda>(p, m) d. AList.update p m d) rows d = d @ rows"
proof (induction rows arbitrary: d)
  case Nil
  then show ?case by simp
next
  case (Cons r rows)
  obtain p m where r: "r = (p, m)" by (cases r)
  have "p \<notin> fst ` set d" using Cons.prems r by auto
  then have "AList.update p m d = d @ [(p, m)]" by (rule update_fresh)
  moreover have "distinct (map fst ((d @ [(p, m)]) @ rows))" using Cons.prems r by simp
  ultimately show ?case using Cons.IH[of "d @ [(p, m)]"] r by simp
qed

lemma dict_of_rows_distinct: "distinct (map fst rows) \<Longrightarrow> dict_of_rows rows = rows"
  using fold_update_distinct[of "[]" rows] by (simp add: dict_of_rows_def)

subsection \<open>The scan\<close>

lemma accepted_append:
  "accepted fnmatch xs ps (vs @ ws) = accepted fnmatch xs ps vs @ accepted fnmatch xs ps ws"
  by (induction vs) (auto split: option.splits)

lemma map_fst_accepted:
  "map fst (accepted fnmatch xs ps vs)
     = map path_of (filter (\<lambda>v. \<not> excluded_by fnmatch xs ps v \<and> snd (snd v) \<noteq> None) vs)"
  by (induction vs) (auto simp: path_of_def split: option.splits)



lemma stmts_for_snoc:
  "stmts_for t0 (acc @ [(p, m)]) =
     stmts_for t0 acc @ (case map_of t0 p of None \<Rightarrow> [Insert p m]
                          | Some old \<Rightarrow> if old \<noteq> m then [Update p m] else [])"
  by (simp add: stmts_for_def)



lemma stmts_for_same:
  "\<forall>x \<in> set acc. map_of t (fst x) = Some (snd x) \<Longrightarrow> stmts_for t acc = []"
  by (induction acc) (auto simp: stmts_for_def)

lemma keys_of_inv:
  assumes "map_of t = map_of t0 ++ map_of acc"
  shows "fst ` set t = fst ` set t0 \<union> fst ` set acc"
proof -
  have "dom (map_of t) = dom (map_of t0 ++ map_of acc)" using assms by simp
  then show ?thesis by (simp add: dom_map_of_conv_image_fst Un_commute)
qed

lemma visit_file_excluded:
  "excluded_by fnmatch xs ps v \<Longrightarrow>
   visit_file fnmatch xs ps existing v sc = sc\<lparr>excluded := excluded sc + 1\<rparr>"
  by (cases v) (auto simp: visit_file_def excluded_by_def Let_def)

lemma visit_file_unreadable:
  "\<not> excluded_by fnmatch xs ps (dir, f, None) \<Longrightarrow>
   visit_file fnmatch xs ps existing (dir, f, None) sc
     = sc\<lparr>errors := errors sc @ [CannotAccess (join dir f)]\<rparr>"
  by (auto simp: visit_file_def excluded_by_def Let_def)

lemma visit_file_accepted:
  assumes "\<not> excluded_by fnmatch xs ps (dir, f, Some m)"
    and "scan_inv t0 acc sc" and "join dir f \<notin> fst ` set acc"
  shows "scan_inv t0 (acc @ [(join dir f, m)]) (visit_file fnmatch xs ps t0 (dir, f, Some m) sc) \<and>
         errors (visit_file fnmatch xs ps t0 (dir, f, Some m) sc) = errors sc \<and>
         excluded (visit_file fnmatch xs ps t0 (dir, f, Some m) sc) = excluded sc"
proof -
  let ?p = "join dir f"
  have d: "distinct (map fst (tbl sc))" and mo: "map_of (tbl sc) = map_of t0 ++ map_of acc"
    and st: "stmts sc = stmts_for t0 acc" and scn: "scanned sc = fst ` set acc"
    and del: "deleted sc = 0"
    using assms(2) by (auto simp: scan_inv_def)
  have nacc: "map_of acc ?p = None" using assms(3) by (simp add: map_of_eq_None_iff)
  have keys: "fst ` set (tbl sc) = fst ` set t0 \<union> fst ` set acc" using mo by (rule keys_of_inv)
  have look: "map_of (tbl sc) ?p = map_of t0 ?p" using mo nacc by (simp add: map_add_def)
  have new: "map_of t0 ++ map_of (acc @ [(?p, m)]) = (map_of t0 ++ map_of acc)(?p \<mapsto> m)"
    using nacc by (auto simp: fun_eq_iff map_add_def split: option.splits)
  have nex: "lower (snd (splitext ?p)) \<notin> set xs" "\<not> list_ex (\<lambda>pattern. fnmatch f pattern) ps"
    using assms(1) by (auto simp: excluded_by_def)
  show ?thesis
  proof (cases "map_of t0 ?p")
    case None
    then have "?p \<notin> fst ` set (tbl sc)" using keys assms(3) by (auto simp: map_of_eq_None_iff)
    then have fresh: "?p \<notin> fst ` set (tbl sc)" .
    have ins: "sql_insert ?p m (tbl sc) = Inr (tbl sc @ [(?p, m)])"
      using fresh by (simp add: sql_insert_def)
    have mo': "map_of (tbl sc @ [(?p, m)]) = (map_of (tbl sc))(?p \<mapsto> m)"
      using fresh by (rule map_of_snoc)
    have d': "distinct (map fst (tbl sc @ [(?p, m)]))"
      using d fresh by simp
    have v: "visit_file fnmatch xs ps t0 (dir, f, Some m) sc
          = sc\<lparr>scanned := insert ?p (scanned sc), tbl := tbl sc @ [(?p, m)],
                stmts := stmts sc @ [Insert ?p m]\<rparr>"
      using nex None ins by (simp add: visit_file_def Let_def)
    show ?thesis unfolding v scan_inv_def
      using d' mo' mo new st scn del None by (simp add: stmts_for_snoc)
  next
    case (Some old)
    then have inkeys: "?p \<in> fst ` set (tbl sc)" using keys by (auto dest: map_of_SomeD intro: rev_image_eqI)
    show ?thesis
    proof (cases "old = m")
      case True
      have v: "visit_file fnmatch xs ps t0 (dir, f, Some m) sc = sc\<lparr>scanned := insert ?p (scanned sc)\<rparr>"
        using nex Some True by (simp add: visit_file_def Let_def)
      have "(map_of t0 ++ map_of acc)(?p \<mapsto> m) = map_of t0 ++ map_of acc"
        using look mo Some True by (auto simp: fun_eq_iff)
      then show ?thesis unfolding v scan_inv_def
        using d mo new st scn del Some True by (simp add: stmts_for_snoc)
    next
      case False
      have v: "visit_file fnmatch xs ps t0 (dir, f, Some m) sc
          = sc\<lparr>scanned := insert ?p (scanned sc), tbl := sql_update ?p m (tbl sc),
                stmts := stmts sc @ [Update ?p m]\<rparr>"
        using nex Some False by (simp add: visit_file_def Let_def)
      show ?thesis unfolding v scan_inv_def
        using d mo new st scn del Some False inkeys
        by (simp add: stmts_for_snoc map_of_sql_update map_fst_sql_update)
    qed
  qed
qed

lemma scan_fold:
  assumes "distinct (map fst t0)"
    and "distinct (map fst (accepted fnmatch xs ps vs))"
  defines "sc \<equiv> fold (visit_file fnmatch xs ps t0) vs
             \<lparr>tbl = t0, stmts = [], scanned = {}, errors = [], excluded = 0, deleted = 0\<rparr>"
  shows "scan_inv t0 (accepted fnmatch xs ps vs) sc \<and>
         excluded sc = length (filter (excluded_by fnmatch xs ps) vs) \<and>
         errors sc = map (\<lambda>v. CannotAccess (path_of v)) (unreadable fnmatch xs ps vs)"
  using assms(2) unfolding sc_def
proof (induction vs rule: rev_induct)
  case Nil
  show ?case using assms(1) by (simp add: scan_inv_def stmts_for_def unreadable_def)
next
  case (snoc v vs)
  let ?sc = "fold (visit_file fnmatch xs ps t0) vs
             \<lparr>tbl = t0, stmts = [], scanned = {}, errors = [], excluded = 0, deleted = 0\<rparr>"
  have dist: "distinct (map fst (accepted fnmatch xs ps vs))"
    using snoc.prems by (simp add: accepted_append)
  note ih = snoc.IH[OF dist]
  obtain dir f st where v: "v = (dir, f, st)" by (cases v)
  show ?case
  proof (cases "excluded_by fnmatch xs ps v")
    case True
    then have "accepted fnmatch xs ps [v] = []" using v by (auto split: option.splits)
    then show ?thesis using ih True
      by (simp add: accepted_append visit_file_excluded scan_inv_def unreadable_def)
  next
    case False
    show ?thesis
    proof (cases st)
      case None
      have a: "accepted fnmatch xs ps [v] = []" using v None by simp
      have "visit_file fnmatch xs ps t0 v ?sc = ?sc\<lparr>errors := errors ?sc @ [CannotAccess (join dir f)]\<rparr>"
        using False v None visit_file_unreadable by simp
      then show ?thesis using ih False a v None
        by (simp add: accepted_append scan_inv_def unreadable_def path_of_def)
    next
      case (Some m)
      have a: "accepted fnmatch xs ps [v] = [(join dir f, m)]" using v Some False by simp
      have fresh: "join dir f \<notin> fst ` set (accepted fnmatch xs ps vs)"
        using snoc.prems a by (simp add: accepted_append)
      have ne: "\<not> excluded_by fnmatch xs ps (dir, f, Some m)" using False v Some by simp
      from visit_file_accepted[OF ne _ fresh, of t0 ?sc] ih
      show ?thesis using False a v Some
        by (simp add: accepted_append unreadable_def)
    qed
  qed
qed

lemma fold_visit_noop:
  assumes "\<forall>x \<in> set (accepted fnmatch xs ps vs). map_of t0 (fst x) = Some (snd x)"
  shows "tbl (fold (visit_file fnmatch xs ps t0) vs sc) = tbl sc"
  using assms
proof (induction vs arbitrary: sc)
  case Nil
  then show ?case by simp
next
  case (Cons v vs)
  obtain dir f st where v: "v = (dir, f, st)" by (cases v)
  have rest: "\<forall>x \<in> set (accepted fnmatch xs ps vs). map_of t0 (fst x) = Some (snd x)"
    using Cons.prems v by (auto split: option.splits if_splits)
  have "tbl (visit_file fnmatch xs ps t0 v sc) = tbl sc"
  proof (cases "excluded_by fnmatch xs ps v")
    case True
    then show ?thesis by (simp add: visit_file_excluded)
  next
    case False
    show ?thesis
    proof (cases st)
      case None
      then show ?thesis using False v visit_file_unreadable by simp
    next
      case (Some m)
      then have "map_of t0 (join dir f) = Some m" using Cons.prems v False by simp
      moreover have "lower (snd (splitext (join dir f))) \<notin> set xs"
        "\<not> list_ex (\<lambda>pattern. fnmatch f pattern) ps"
        using False v by (auto simp: excluded_by_def)
      ultimately show ?thesis using v Some by (simp add: visit_file_def Let_def)
    qed
  qed
  then show ?case using Cons.IH[OF rest, of "visit_file fnmatch xs ps t0 v sc"] by simp
qed

lemma fold_delete_unscanned:
  "fold delete_unscanned ks sc =
     sc\<lparr>tbl := filter (\<lambda>(q, old). q \<notin> set ks \<or> q \<in> scanned sc) (tbl sc),
        stmts := stmts sc @ map Delete (filter (\<lambda>p. p \<notin> scanned sc) ks),
        deleted := deleted sc + length (filter (\<lambda>p. p \<notin> scanned sc) ks)\<rparr>"
proof (induction ks arbitrary: sc)
  case Nil
  then show ?case by simp
next
  case (Cons k ks)
  show ?case
  proof (cases "k \<in> scanned sc")
    case True
    then have "delete_unscanned k sc = sc" by (simp add: delete_unscanned_def)
    moreover have "filter (\<lambda>(q, old). q \<notin> set (k # ks) \<or> q \<in> scanned sc) (tbl sc)
                 = filter (\<lambda>(q, old). q \<notin> set ks \<or> q \<in> scanned sc) (tbl sc)"
      using True by (intro filter_cong) auto
    ultimately show ?thesis using Cons.IH[of sc] True by simp
  next
    case False
    let ?sc = "sc\<lparr>tbl := sql_delete k (tbl sc), stmts := stmts sc @ [Delete k],
                  deleted := deleted sc + 1\<rparr>"
    have d: "delete_unscanned k sc = ?sc" using False by (simp add: delete_unscanned_def)
    have "filter (\<lambda>(q, old). q \<notin> set ks \<or> q \<in> scanned sc) (sql_delete k (tbl sc))
        = filter (\<lambda>(q, old). q \<notin> set (k # ks) \<or> q \<in> scanned sc) (tbl sc)"
      unfolding sql_delete_def filter_filter using False by (intro filter_cong) auto
    then show ?thesis using Cons.IH[of ?sc] d False by simp
  qed
qed

subsection \<open>The whole run\<close>

lemma index_files_success:
  assumes "index_files fnmatch fs dataset_path exts pats dirs enable s = (Inr sc, s')"
  shows "(\<exists>es. fs dataset_path = Some (Dir es)) \<and> (\<exists>d. db s = Database d)"
  using assms
  by (auto simp: index_files_def connect_def create_table_def select_all_def Let_def
      split: option.splits fsnode.splits database.splits sum.splits if_splits)

lemma index_files_unfold:
  fixes fnmatch :: "string \<Rightarrow> string \<Rightarrow> bool" and exts pats dirs :: "string list option"
    and enable :: bool
  assumes "fs dataset_path = Some (Dir es)" and "db s = Database d"
  defines "t0 \<equiv> rows_of (db s)"
  defines "sc1 \<equiv> fold (visit_file fnmatch (normalize_extensions (effective enable exts))
                     (effective enable pats) (dict_of_rows t0))
                  (scan_files fnmatch (effective enable dirs) dataset_path es)
                  \<lparr>tbl = t0, stmts = [], scanned = {}, errors = [], excluded = 0, deleted = 0\<rparr>"
  defines "sc2 \<equiv> fold delete_unscanned (map fst (dict_of_rows t0)) sc1"
  shows "index_files fnmatch fs dataset_path exts pats dirs enable s =
           (Inr sc2, \<lparr>db = Database (Some (tbl sc2)), open_conns = open_conns s,
                      executed = executed s @ [CreateTable, SelectAll] @ stmts sc2 @ [Commit]\<rparr>)"
proof (cases d)
  case None
  then show ?thesis using assms(1,2) unfolding sc2_def sc1_def t0_def
    by (simp add: index_files_def connect_def create_table_def select_all_def Let_def
        commit_def close_def effective_def scan_files_def rows_of_def)
next
  case (Some t)
  then show ?thesis using assms(1,2) unfolding sc2_def sc1_def t0_def
    by (simp add: index_files_def connect_def create_table_def select_all_def Let_def
        commit_def close_def effective_def scan_files_def rows_of_def)
qed

lemma index_files_run:
  fixes fnmatch :: "string \<Rightarrow> string \<Rightarrow> bool" and exts pats dirs :: "string list option"
    and enable :: bool
  assumes root: "fs dataset_path = Some (Dir es)" and dbs: "db s = Database d"
    and wfs: "wf_store s"
  defines "X \<equiv> normalize_extensions (effective enable exts)"
  defines "P \<equiv> effective enable pats"
  defines "vs \<equiv> scan_files fnmatch (effective enable dirs) dataset_path es"
  defines "acc \<equiv> accepted fnmatch X P vs"
  defines "gone \<equiv> filter (\<lambda>p. p \<notin> fst ` set acc) (map fst (rows_of (db s)))"
  assumes dist: "distinct (map fst acc)"
    and res: "index_files fnmatch fs dataset_path exts pats dirs enable s = (Inr sc, s')"
  shows "s' = \<lparr>db = Database (Some (tbl sc)), open_conns = open_conns s,
               executed = executed s @ [CreateTable, SelectAll] @ stmts sc @ [Commit]\<rparr>"
    and "distinct (map fst (tbl sc))"
    and "map_of (tbl sc) = map_of acc"
    and "set (tbl sc) = set acc"
    and "scanned sc = fst ` set acc"
    and "excluded sc = length (filter (excluded_by fnmatch X P) vs)"
    and "errors sc = map (\<lambda>v. CannotAccess (path_of v)) (unreadable fnmatch X P vs)"
    and "stmts sc = stmts_for (rows_of (db s)) acc @ map Delete gone"
    and "deleted sc = length gone"
    and "(\<forall>x \<in> set acc. map_of (rows_of (db s)) (fst x) = Some (snd x)) \<and>
          fst ` set (rows_of (db s)) \<subseteq> fst ` set acc \<longrightarrow> tbl sc = rows_of (db s)"
proof -
  let ?t0 = "rows_of (db s)"
  have d0: "distinct (map fst ?t0)"
    using wfs dbs by (auto simp: wf_store_def rows_of_def split: option.splits)
  then have dict: "dict_of_rows ?t0 = ?t0" by (rule dict_of_rows_distinct)
  define sc1 where "sc1 = fold (visit_file fnmatch X P ?t0) vs
      \<lparr>tbl = ?t0, stmts = [], scanned = {}, errors = [], excluded = 0, deleted = 0\<rparr>"
  define sc2 where "sc2 = fold delete_unscanned (map fst ?t0) sc1"
  have run: "index_files fnmatch fs dataset_path exts pats dirs enable s =
           (Inr sc2, \<lparr>db = Database (Some (tbl sc2)), open_conns = open_conns s,
                      executed = executed s @ [CreateTable, SelectAll] @ stmts sc2 @ [Commit]\<rparr>)"
    using index_files_unfold[where fs=fs and dataset_path=dataset_path and es=es and s=s and d=d
        and fnmatch=fnmatch and enable=enable and exts=exts and pats=pats and dirs=dirs] root dbs
    unfolding sc2_def sc1_def X_def P_def vs_def dict by simp
  have s1: "scan_inv ?t0 acc sc1"
    and e1: "excluded sc1 = length (filter (excluded_by fnmatch X P) vs)"
    and r1: "errors sc1 = map (\<lambda>v. CannotAccess (path_of v)) (unreadable fnmatch X P vs)"
    using scan_fold[OF d0 dist[unfolded acc_def]] unfolding sc1_def acc_def by simp_all
  have d1: "distinct (map fst (tbl sc1))" and m1: "map_of (tbl sc1) = map_of ?t0 ++ map_of acc"
    and st1: "stmts sc1 = stmts_for ?t0 acc" and scn1: "scanned sc1 = fst ` set acc"
    and del1: "deleted sc1 = 0"
    using s1 by (auto simp: scan_inv_def)
  have k1: "fst ` set (tbl sc1) = fst ` set ?t0 \<union> fst ` set acc" using m1 by (rule keys_of_inv)
  have sc2: "sc2 = sc1\<lparr>tbl := filter (\<lambda>(q, old). q \<notin> set (map fst ?t0) \<or> q \<in> scanned sc1) (tbl sc1),
        stmts := stmts sc1 @ map Delete (filter (\<lambda>p. p \<notin> scanned sc1) (map fst ?t0)),
        deleted := deleted sc1 + length (filter (\<lambda>p. p \<notin> scanned sc1) (map fst ?t0))\<rparr>"
    unfolding sc2_def by (rule fold_delete_unscanned)
  have t2: "tbl sc2 = filter (\<lambda>(q, old). q \<in> fst ` set acc) (tbl sc1)"
  proof -
    have "filter (\<lambda>(q, old). q \<notin> set (map fst ?t0) \<or> q \<in> scanned sc1) (tbl sc1)
        = filter (\<lambda>(q, old). q \<in> fst ` set acc) (tbl sc1)"
      using k1 scn1 by (intro filter_cong) force+
    then show ?thesis using sc2 by simp
  qed
  have dd: "distinct (map fst (tbl sc2))" unfolding t2 using d1 by (simp add: distinct_map_filter)
  have mm: "map_of (tbl sc2) = map_of acc"
  proof
    fix q
    show "map_of (tbl sc2) q = map_of acc q"
    proof (cases "q \<in> fst ` set acc")
      case True
      then obtain m where "map_of acc q = Some m"
        by (metis domD dom_map_of_conv_image_fst)
      then show ?thesis unfolding t2 map_of_filter_key using True m1 by (simp add: map_add_def)
    next
      case False
      then have "map_of acc q = None" by (simp add: map_of_eq_None_iff)
      then show ?thesis unfolding t2 map_of_filter_key using False by simp
    qed
  qed
  have kk: "fst ` set (tbl sc2) = fst ` set acc"
    using mm by (metis dom_map_of_conv_image_fst)
  have noop: "(\<forall>x \<in> set acc. map_of ?t0 (fst x) = Some (snd x)) \<and>
          fst ` set ?t0 \<subseteq> fst ` set acc \<longrightarrow> tbl sc2 = ?t0"
  proof
    assume a: "(\<forall>x \<in> set acc. map_of ?t0 (fst x) = Some (snd x)) \<and>
          fst ` set ?t0 \<subseteq> fst ` set acc"
    then have "tbl sc1 = ?t0"
      unfolding sc1_def acc_def using fold_visit_noop[of fnmatch X P vs ?t0] by simp
    moreover have "filter (\<lambda>(q, old). q \<in> fst ` set acc) ?t0 = ?t0"
      using a by (intro filter_True) force
    ultimately show "tbl sc2 = ?t0" using t2 by simp
  qed
  have eq: "sc = sc2" using res run by auto
  show "s' = \<lparr>db = Database (Some (tbl sc)), open_conns = open_conns s,
               executed = executed s @ [CreateTable, SelectAll] @ stmts sc @ [Commit]\<rparr>"
    using res run by auto
  show "distinct (map fst (tbl sc))" unfolding eq by (rule dd)
  show "map_of (tbl sc) = map_of acc" unfolding eq by (rule mm)
  show "set (tbl sc) = set acc"
    unfolding eq using dd mm dist by (simp add: map_of_inject_set)
  show "scanned sc = fst ` set acc" unfolding eq using sc2 scn1 by simp
  show "excluded sc = length (filter (excluded_by fnmatch X P) vs)" unfolding eq using sc2 e1 by simp
  show "errors sc = map (\<lambda>v. CannotAccess (path_of v)) (unreadable fnmatch X P vs)"
    unfolding eq using sc2 r1 by simp
  show "stmts sc = stmts_for (rows_of (db s)) acc @ map Delete gone"
    unfolding eq using sc2 st1 scn1 by (simp add: gone_def)
  show "deleted sc = length gone" unfolding eq using sc2 del1 scn1 by (simp add: gone_def)
  show "(\<forall>x \<in> set acc. map_of (rows_of (db s)) (fst x) = Some (snd x)) \<and>
          fst ` set (rows_of (db s)) \<subseteq> fst ` set acc \<longrightarrow> tbl sc = rows_of (db s)"
    unfolding eq by (rule noop)
qed

subsection \<open>Paths of a well-formed tree\<close>

lemma join_name:
  "n \<noteq> [] \<Longrightarrow> CHR ''/'' \<notin> set n \<Longrightarrow> join dir n = dir_prefix dir @ n"
  by (cases n) (auto simp: join_def dir_prefix_def)

lemma dir_prefix_join:
  assumes "n \<noteq> []" "CHR ''/'' \<notin> set n"
  shows "dir_prefix (join dir n) = dir_prefix dir @ n @ ''/''"
proof -
  have "last (dir_prefix dir @ n) = last n" using assms(1) by simp
  moreover have "last n \<noteq> CHR ''/''" using assms by (metis last_in_set)
  ultimately show ?thesis using assms by (simp add: join_name) (simp add: dir_prefix_def)
qed

lemma slash_free_eq:
  "CHR ''/'' \<notin> set a \<Longrightarrow> CHR ''/'' \<notin> set b \<Longrightarrow> a @ CHR ''/'' # x = b @ CHR ''/'' # y \<Longrightarrow> a = b"
proof (induction a arbitrary: b)
  case Nil
  then show ?case by (cases b) auto
next
  case (Cons c a)
  then show ?case by (cases b) auto
qed

lemma visits_Cons: "visits ((dir, files) # ts) = map (\<lambda>(f, st). (dir, f, st)) files @ visits ts"
  by (simp add: visits_def)

lemma visits_append: "visits (ts @ us) = visits ts @ visits us"
  by (simp add: visits_def)

lemma visits_Nil: "visits [] = []"
  by (simp add: visits_def)

lemma wf_entries_names:
  "wf_entries es \<Longrightarrow> (n, node) \<in> set es \<Longrightarrow> n \<noteq> [] \<and> CHR ''/'' \<notin> set n"
  by (induction es rule: wf_entries.induct) auto

lemma nondirs_subset: "(f, st) \<in> set (nondirs es) \<Longrightarrow> (f, File st) \<in> set es"
  by (induction es rule: nondirs.induct) auto

lemma distinct_nondirs: "wf_entries es \<Longrightarrow> distinct (map fst (nondirs es))"
proof (induction es rule: nondirs.induct)
  case 1
  then show ?case by simp
next
  case (2 f st rest)
  then show ?case by (force dest: nondirs_subset)
next
  case (3 d sub rest)
  then show ?case by simp
qed

lemma walk_paths:
  "map path_of (visits (walk keep dir es))
     = map (\<lambda>(f, st). join dir f) (nondirs es) @ map path_of (visits (walk_dirs keep dir es))"
  by (simp add: visits_Cons path_of_def case_prod_unfold comp_def)

lemma walk_dirs_Dir:
  "map path_of (visits (walk_dirs keep dir ((d, Dir sub) # rest)))
     = (if keep d then map path_of (visits (walk keep (join dir d) sub)) else [])
       @ map path_of (visits (walk_dirs keep dir rest))"
  by (simp add: visits_append visits_Nil del: walk.simps)

lemma walk_shape:
  "wf_entries es \<Longrightarrow> p \<in> set (map path_of (visits (walk keep dir es))) \<Longrightarrow>
     \<exists>rel. p = dir_prefix dir @ rel"
  "wf_entries es \<Longrightarrow> p \<in> set (map path_of (visits (walk_dirs keep dir es))) \<Longrightarrow>
     \<exists>n sub rel. (n, Dir sub) \<in> set es \<and> p = dir_prefix dir @ n @ CHR ''/'' # rel"
proof (induction keep dir es and keep dir es arbitrary: p and p rule: walk_walk_dirs.induct)
  case (1 keep dir es)
  from "1.prems"(2) have "p \<in> set (map (\<lambda>(f, st). join dir f) (nondirs es)) \<or>
      p \<in> set (map path_of (visits (walk_dirs keep dir es)))"
    unfolding walk_paths by (simp only: set_append Un_iff)
  then consider
      (direct) "p \<in> set (map (\<lambda>(f, st). join dir f) (nondirs es))"
    | (deep) "p \<in> set (map path_of (visits (walk_dirs keep dir es)))"
    by blast
  then show ?case
  proof cases
    case direct
    then obtain f st where f: "(f, st) \<in> set (nondirs es)" "p = join dir f" by auto
    then have "(f, File st) \<in> set es" by (auto dest: nondirs_subset)
    then have "f \<noteq> [] \<and> CHR ''/'' \<notin> set f" using "1.prems"(1) wf_entries_names by blast
    then show ?thesis using f(2) by (auto simp: join_name)
  next
    case deep
    from "1.IH"[OF "1.prems"(1) deep] show ?thesis by auto
  qed
next
  case (2 keep dir)
  then show ?case by (simp add: visits_Nil)
next
  case (3 keep dir f st rest)
  from "3.prems" have "wf_entries rest"
    and "p \<in> set (map path_of (visits (walk_dirs keep dir rest)))" by auto
  from "3.IH"[OF this] show ?case by auto
next
  case (4 keep dir d sub rest)
  have wf: "wf_entries sub" "wf_entries rest" "d \<noteq> []" "CHR ''/'' \<notin> set d"
    using "4.prems"(1) by auto
  from "4.prems"(2) have "(keep d \<and> p \<in> set (map path_of (visits (walk keep (join dir d) sub)))) \<or>
      p \<in> set (map path_of (visits (walk_dirs keep dir rest)))"
    unfolding walk_dirs_Dir by (cases "keep d") (simp_all only: set_append Un_iff if_True if_False list.set empty_iff, blast+)
  then consider
      (child) "keep d" "p \<in> set (map path_of (visits (walk keep (join dir d) sub)))"
    | (later) "p \<in> set (map path_of (visits (walk_dirs keep dir rest)))"
    by blast
  then show ?case
  proof cases
    case child
    from "4.IH"(1)[OF child(1) wf(1) child(2)] obtain rel where "p = dir_prefix (join dir d) @ rel"
      by blast
    then have "p = dir_prefix dir @ d @ CHR ''/'' # rel" using wf(3,4) by (simp add: dir_prefix_join)
    then show ?thesis by auto
  next
    case later
    from "4.IH"(2)[OF wf(2) later] show ?thesis by auto
  qed
qed

lemma walk_distinct:
  "wf_entries es \<Longrightarrow> distinct (map path_of (visits (walk keep dir es)))"
  "wf_entries es \<Longrightarrow> distinct (map path_of (visits (walk_dirs keep dir es)))"
proof (induction keep dir es and keep dir es rule: walk_walk_dirs.induct)
  case (1 keep dir es)
  let ?files = "map (\<lambda>(f, st). join dir f) (nondirs es)"
  let ?deep = "map path_of (visits (walk_dirs keep dir es))"
  have names: "\<And>f st. (f, st) \<in> set (nondirs es) \<Longrightarrow> f \<noteq> [] \<and> CHR ''/'' \<notin> set f"
    using "1.prems" wf_entries_names nondirs_subset by blast
  have eq: "?files = map (\<lambda>f. dir_prefix dir @ f) (map fst (nondirs es))"
    using names by (auto simp: join_name)
  have df: "distinct ?files"
    unfolding eq using distinct_nondirs[OF "1.prems"] by (simp add: distinct_map inj_on_def)
  have dd: "distinct ?deep" using "1.IH" "1.prems" by blast
  have disj: "set ?files \<inter> set ?deep = {}"
  proof (rule ccontr)
    assume "set ?files \<inter> set ?deep \<noteq> {}"
    then obtain p where pf: "p \<in> set ?files" and pd: "p \<in> set ?deep" by blast
    from pf obtain f st where f: "(f, st) \<in> set (nondirs es)" "p = dir_prefix dir @ f"
      using names by (auto simp: join_name)
    from walk_shape(2)[OF "1.prems" pd] obtain n sub rel where
      "p = dir_prefix dir @ n @ CHR ''/'' # rel" by blast
    then have "f = n @ CHR ''/'' # rel" using f(2) by simp
    then have "CHR ''/'' \<in> set f" by simp
    then show False using names f(1) by blast
  qed
  show ?case unfolding walk_paths using df dd disj by simp
next
  case (2 keep dir)
  then show ?case by (simp add: visits_Nil)
next
  case (3 keep dir f st rest)
  then show ?case by simp
next
  case (4 keep dir d sub rest)
  have wf: "wf_entries sub" "wf_entries rest" "d \<noteq> []" "CHR ''/'' \<notin> set d" "d \<notin> fst ` set rest"
    using "4.prems" by auto
  let ?later = "map path_of (visits (walk_dirs keep dir rest))"
  have dl: "distinct ?later" using "4.IH"(2) wf(2) by blast
  show ?case
  proof (cases "keep d")
    case False
    then show ?thesis unfolding walk_dirs_Dir using dl by simp
  next
    case True
    let ?child = "map path_of (visits (walk keep (join dir d) sub))"
    have dc: "distinct ?child" using "4.IH"(1) True wf(1) by blast
    have disj: "set ?child \<inter> set ?later = {}"
    proof (rule ccontr)
      assume "set ?child \<inter> set ?later \<noteq> {}"
      then obtain p where pc: "p \<in> set ?child" and pl: "p \<in> set ?later" by blast
      from walk_shape(1)[OF wf(1) pc] obtain rel where "p = dir_prefix (join dir d) @ rel" by blast
      then have p1: "p = dir_prefix dir @ d @ CHR ''/'' # rel" using wf(3,4) by (simp add: dir_prefix_join)
      from walk_shape(2)[OF wf(2) pl] obtain n sub' rel' where
        n: "(n, Dir sub') \<in> set rest" "p = dir_prefix dir @ n @ CHR ''/'' # rel'" by blast
      have "CHR ''/'' \<notin> set n" using wf_entries_names[OF wf(2) n(1)] by simp
      moreover have "d @ CHR ''/'' # rel = n @ CHR ''/'' # rel'" using p1 n(2) by simp
      ultimately have "d = n" using wf(4) slash_free_eq by blast
      then show False using n(1) wf(5) by force
    qed
    show ?thesis unfolding walk_dirs_Dir using True dc dl disj by simp
  qed
qed

lemma walk_split:
  "mset (all_files dir es)
     = mset (map path_of (visits (walk keep dir es))) + mset (pruned_files keep dir es)"
  "mset (map path_of (visits (walk_dirs (\<lambda>d. True) dir es)))
     = mset (map path_of (visits (walk_dirs keep dir es))) + mset (pruned_files keep dir es)"
proof (induction keep dir es and keep dir es rule: walk_walk_dirs.induct)
  case (1 keep dir es)
  then show ?case unfolding all_files_def walk_paths by simp
next
  case (2 keep dir)
  then show ?case by (simp add: visits_Nil)
next
  case (3 keep dir f st rest)
  then show ?case by simp
next
  case (4 keep dir d sub rest)
  show ?case
  proof (cases "keep d")
    case True
    then show ?thesis unfolding walk_dirs_Dir using "4.IH" by (simp add: all_files_def)
  next
    case False
    then show ?thesis unfolding walk_dirs_Dir using "4.IH"(2) by (simp add: all_files_def)
  qed
qed

lemma pruned_not_visited:
  assumes "wf_entries es"
  shows "set (pruned_files keep dir es) \<inter> set (map path_of (visits (walk keep dir es))) = {}"
proof -
  have "distinct (all_files dir es)" unfolding all_files_def using assms by (rule walk_distinct(1))
  moreover have "mset (all_files dir es)
      = mset (map path_of (visits (walk keep dir es)) @ pruned_files keep dir es)"
    using walk_split(1)[of dir es keep] by simp
  ultimately have "distinct (map path_of (visits (walk keep dir es)) @ pruned_files keep dir es)"
    by (metis mset_eq_imp_distinct_iff)
  then show ?thesis by auto
qed



lemma scan_distinct:
  assumes "wf_entries es"
  shows "distinct (map fst (accepted fnmatch X P (scan_files fnmatch D dataset_path es)))"
  unfolding map_fst_accepted scan_files_def
  using walk_distinct(1)[OF assms] by (rule distinct_map_filter)




lemma effective_True: "effective True xs = or_empty xs"
  by (simp add: effective_def)


lemma index_files_result:
  fixes fnmatch :: "string \<Rightarrow> string \<Rightarrow> bool" and exts pats dirs :: "string list option"
    and enable :: bool
  assumes root: "fs dataset_path = Some (Dir es)" and wf: "wf_entries es" and wfs: "wf_store s"
    and run: "index_files fnmatch fs dataset_path exts pats dirs enable s = (Inr sc, s')"
  defines "X \<equiv> normalize_extensions (effective enable exts)"
  defines "P \<equiv> effective enable pats"
  defines "vs \<equiv> scan_files fnmatch (effective enable dirs) dataset_path es"
  defines "acc \<equiv> accepted fnmatch X P vs"
  defines "gone \<equiv> filter (\<lambda>p. p \<notin> fst ` set acc) (map fst (rows_of (db s)))"
  shows "s' = \<lparr>db = Database (Some (tbl sc)), open_conns = open_conns s,
               executed = executed s @ [CreateTable, SelectAll] @ stmts sc @ [Commit]\<rparr>"
    and "distinct (map fst (tbl sc))"
    and "map_of (tbl sc) = map_of acc"
    and "set (tbl sc) = set acc"
    and "scanned sc = fst ` set acc"
    and "excluded sc = length (filter (excluded_by fnmatch X P) vs)"
    and "errors sc = map (\<lambda>v. CannotAccess (path_of v)) (unreadable fnmatch X P vs)"
    and "stmts sc = stmts_for (rows_of (db s)) acc @ map Delete gone"
    and "deleted sc = length gone"
    and "distinct (map fst acc)"
    and "(\<forall>x \<in> set acc. map_of (rows_of (db s)) (fst x) = Some (snd x)) \<and>
          fst ` set (rows_of (db s)) \<subseteq> fst ` set acc \<longrightarrow> tbl sc = rows_of (db s)"
proof -
  obtain d where d: "db s = Database d" using index_files_success[OF run] by blast
  show dist: "distinct (map fst acc)" unfolding acc_def vs_def using wf by (rule scan_distinct)
  note r = index_files_run[where fs=fs and dataset_path=dataset_path and es=es and s=s and d=d
        and fnmatch=fnmatch and enable=enable and exts=exts and pats=pats and dirs=dirs
        and sc=sc and s'=s',
        OF root d wfs dist[unfolded acc_def vs_def X_def P_def] run]
  show "s' = \<lparr>db = Database (Some (tbl sc)), open_conns = open_conns s,
               executed = executed s @ [CreateTable, SelectAll] @ stmts sc @ [Commit]\<rparr>"
    unfolding gone_def acc_def vs_def X_def P_def by (rule r(1))
  show "distinct (map fst (tbl sc))"
    unfolding gone_def acc_def vs_def X_def P_def by (rule r(2))
  show "map_of (tbl sc) = map_of acc"
    unfolding gone_def acc_def vs_def X_def P_def by (rule r(3))
  show "set (tbl sc) = set acc"
    unfolding gone_def acc_def vs_def X_def P_def by (rule r(4))
  show "scanned sc = fst ` set acc"
    unfolding gone_def acc_def vs_def X_def P_def by (rule r(5))
  show "excluded sc = length (filter (excluded_by fnmatch X P) vs)"
    unfolding gone_def acc_def vs_def X_def P_def by (rule r(6))
  show "errors sc = map (\<lambda>v. CannotAccess (path_of v)) (unreadable fnmatch X P vs)"
    unfolding gone_def acc_def vs_def X_def P_def by (rule r(7))
  show "stmts sc = stmts_for (rows_of (db s)) acc @ map Delete gone"
    unfolding gone_def acc_def vs_def X_def P_def by (rule r(8))
  show "deleted sc = length gone"
    unfolding gone_def acc_def vs_def X_def P_def by (rule r(9))
  show "(\<forall>x \<in> set acc. map_of (rows_of (db s)) (fst x) = Some (snd x)) \<and>
          fst ` set (rows_of (db s)) \<subseteq> fst ` set acc \<longrightarrow> tbl sc = rows_of (db s)"
    unfolding gone_def acc_def vs_def X_def P_def by (rule r(10))
qed

subsection \<open>Runs on the concrete inputs\<close>

lemma fs_data_root: "fs_data ''/data'' = Some (Dir tree_data)"
  by (simp add: fs_data_def)

lemma wf_tree_data: "wf_entries tree_data"
  by code_simp

lemma wf_store0: "wf_store store0"
  by (simp add: wf_store_def store0_def)



lemma run_ext_on:
  "index_files glob fs_data ''/data'' (Some [''TMP'']) None None True store0
     = (Inr scan_report, store_report)"
  by code_simp


lemma run_dir_on:
  "index_files glob fs_data ''/data'' None None (Some [''t*'']) True store0
     = (Inr (scan_report\<lparr>excluded := 0\<rparr>), store_report)"
  by code_simp

lemma run_dir_off:
  "index_files glob fs_data ''/data'' None None (Some [''t*'']) False store0
     = (Inr scan_all, store_all)"
  by code_simp


lemma run_again:
  "index_files glob fs_data ''/data'' (Some [''TMP'']) None None True store_report
     = (Inr (scan_report\<lparr>stmts := []\<rparr>),
        store_report\<lparr>executed := executed store_report @ [CreateTable, SelectAll, Commit]\<rparr>)"
  by code_simp

subsection \<open>Claims on \<^verbatim>\<open>index_files\<close>\<close>









text \<open>
  Claim C5, as stated, fails: with \<^verbatim>\<open>enable_exclusions\<close> false the configured
  directory patterns are not applied. The directory \<^verbatim>\<open>tmp\<close> matches the pattern
  \<^verbatim>\<open>t*\<close>, and the file inside it is scanned and indexed.
\<close>

theorem index_files_pruned_directories_counterexample:
  "fs_data ''/data'' = Some (Dir tree_data) \<and>
   glob ''tmp'' ''t*'' \<and>
   ''/data/tmp/cache.tmp''
     \<in> set (pruned_files (\<lambda>d. \<not> list_ex (\<lambda>pattern. glob d pattern) [''t*'']) ''/data'' tree_data) \<and>
   index_files glob fs_data ''/data'' None None (Some [''t*'']) False store0
     = (Inr scan_all, store_all) \<and>
   ''/data/tmp/cache.tmp'' \<in> scanned scan_all \<and>
   ''/data/tmp/cache.tmp'' \<in> fst ` set (tbl scan_all) \<and>
   db store_all = Database (Some (tbl scan_all))"
proof -
  have a: "glob ''tmp'' ''t*''" by code_simp
  have b: "''/data/tmp/cache.tmp''
     \<in> set (pruned_files (\<lambda>d. \<not> list_ex (\<lambda>pattern. glob d pattern) [''t*'']) ''/data'' tree_data)"
    by code_simp
  have c: "''/data/tmp/cache.tmp'' \<in> scanned scan_all"
    "''/data/tmp/cache.tmp'' \<in> fst ` set (tbl scan_all)"
    "db store_all = Database (Some (tbl scan_all))"
    by (simp_all add: scan_all_def store_all_def)
  from fs_data_root a b run_dir_off c show ?thesis by blast
qed

text \<open>
  Claim C5, amended: with \<^verbatim>\<open>enable_exclusions\<close> true, a file below a subdirectory
  whose base name matches a directory pattern is not reached by the scan, is not in
  \<^verbatim>\<open>scanned\<close>, has no error recorded, and is not in the index after a successful
  run.
\<close>

theorem index_files_pruned_directories:
  assumes "fs dataset_path = Some (Dir es)" and "wf_entries es" and "wf_store s"
    and "index_files fnmatch fs dataset_path exts pats dirs True s = (Inr sc, s')"
    and "p \<in> set (pruned_files (\<lambda>d. \<not> list_ex (\<lambda>pattern. fnmatch d pattern) (or_empty dirs))
                  dataset_path es)"
  shows "p \<notin> path_of ` set (scan_files fnmatch (or_empty dirs) dataset_path es) \<and>
         p \<notin> scanned sc \<and>
         CannotAccess p \<notin> set (errors sc) \<and> ErrorWith p \<notin> set (errors sc) \<and>
         db s' = Database (Some (tbl sc)) \<and>
         p \<notin> fst ` set (tbl sc)"
proof -
  let ?vs = "scan_files fnmatch (or_empty dirs) dataset_path es"
  note r = index_files_result[OF assms(1-4), unfolded effective_True]
  have nv: "p \<notin> path_of ` set ?vs"
    using pruned_not_visited[OF assms(2), of "\<lambda>d. \<not> list_ex (\<lambda>pattern. fnmatch d pattern) (or_empty dirs)" dataset_path]
      assms(5)
    unfolding scan_files_def by auto
  have sub: "fst ` set (accepted fnmatch (normalize_extensions (or_empty exts)) (or_empty pats) ?vs)
      \<subseteq> path_of ` set ?vs"
    using map_fst_accepted[of fnmatch "normalize_extensions (or_empty exts)" "or_empty pats" ?vs]
    by (metis (no_types, lifting) filter_is_subset image_mono list.set_map)
  have ns: "p \<notin> scanned sc" using nv sub r(5) by auto
  have nk: "p \<notin> fst ` set (tbl sc)" using nv sub r(4) by auto
  have ne: "CannotAccess p \<notin> set (errors sc)" "ErrorWith p \<notin> set (errors sc)"
    unfolding r(7) using nv by (auto simp: unreadable_def)
  have d: "db s' = Database (Some (tbl sc))" using r(1) by simp
  from nv ns ne d nk show ?thesis by blast
qed

theorem index_files_pruned_directories_witness:
  "fs_data ''/data'' = Some (Dir tree_data) \<and> wf_entries tree_data \<and> wf_store store0 \<and>
   index_files glob fs_data ''/data'' None None (Some [''t*'']) True store0
     = (Inr (scan_report\<lparr>excluded := 0\<rparr>), store_report) \<and>
   ''/data/tmp/cache.tmp''
     \<in> set (pruned_files (\<lambda>d. \<not> list_ex (\<lambda>pattern. glob d pattern) (or_empty (Some [''t*''])))
            ''/data'' tree_data) \<and>
   ''/data/tmp/cache.tmp''
     \<notin> path_of ` set (scan_files glob (or_empty (Some [''t*''])) ''/data'' tree_data) \<and>
   ''/data/tmp/cache.tmp'' \<notin> scanned (scan_report\<lparr>excluded := 0\<rparr>) \<and>
   CannotAccess ''/data/tmp/cache.tmp'' \<notin> set (errors (scan_report\<lparr>excluded := 0\<rparr>)) \<and>
   ErrorWith ''/data/tmp/cache.tmp'' \<notin> set (errors (scan_report\<lparr>excluded := 0\<rparr>)) \<and>
   db store_report = Database (Some (tbl (scan_report\<lparr>excluded := 0\<rparr>))) \<and>
   ''/data/tmp/cache.tmp'' \<notin> fst ` set (tbl (scan_report\<lparr>excluded := 0\<rparr>))"
proof -
  have p: "''/data/tmp/cache.tmp''
     \<in> set (pruned_files (\<lambda>d. \<not> list_ex (\<lambda>pattern. glob d pattern) (or_empty (Some [''t*''])))
            ''/data'' tree_data)"
    by code_simp
  from index_files_pruned_directories[OF fs_data_root wf_tree_data wf_store0 run_dir_on p]
    fs_data_root wf_tree_data wf_store0 run_dir_on p
  show ?thesis by blast
qed

text \<open>
  Claim C7: when the root path names nothing, or names something that is not a
  directory, \<^verbatim>\<open>index_files\<close> returns a failure and the store is as it was.
\<close>

theorem index_files_invalid_root:
  assumes "fs dataset_path = None \<or> (\<exists>st. fs dataset_path = Some (File st))"
  shows "(\<exists>e. fst (index_files fnmatch fs dataset_path exts pats dirs enable s) = Inl e) \<and>
         snd (index_files fnmatch fs dataset_path exts pats dirs enable s) = s"
  using assms by (auto simp: index_files_def)

theorem index_files_invalid_root_witness:
  "(fs_file ''/data/report.txt'' = None \<or> (\<exists>st. fs_file ''/data/report.txt'' = Some (File st))) \<and>
   fst (index_files (\<lambda>n p. n = p) fs_file ''/data/report.txt'' None None None False store1)
     = Inl NotADirectory \<and>
   snd (index_files (\<lambda>n p. n = p) fs_file ''/data/report.txt'' None None None False store1) = store1"
proof -
  have h: "fs_file ''/data/report.txt'' = None \<or> (\<exists>st. fs_file ''/data/report.txt'' = Some (File st))"
    by (simp add: fs_file_def)
  have "fst (index_files (\<lambda>n p. n = p) fs_file ''/data/report.txt'' None None None False store1)
     = Inl NotADirectory"
    by (simp add: index_files_def fs_file_def)
  with h index_files_invalid_root[of fs_file "''/data/report.txt''" "\<lambda>n p. n = p" None None None False store1]
  show ?thesis by simp
qed

text \<open>
  Claim C8: when a run has succeeded, a second run on the store it left, with the same
  file system and the same arguments, succeeds too; it deletes nothing, executes no
  statement of the scan (the statements it adds are the table creation, the initial
  select and the commit), and leaves the table as it was.
\<close>

theorem index_files_idempotent:
  assumes "fs dataset_path = Some (Dir es)" and "wf_entries es" and "wf_store s"
    and "index_files fnmatch fs dataset_path exts pats dirs enable s = (Inr sc1, s1)"
    and "index_files fnmatch fs dataset_path exts pats dirs enable s1 = (r2, s2)"
  shows "\<exists>sc2. r2 = Inr sc2 \<and> deleted sc2 = 0 \<and> stmts sc2 = [] \<and>
           executed s2 = executed s1 @ [CreateTable, SelectAll, Commit] \<and>
           db s2 = db s1 \<and> tbl sc2 = tbl sc1 \<and> scanned sc2 = scanned sc1"
proof -
  let ?acc = "accepted fnmatch (normalize_extensions (effective enable exts)) (effective enable pats)
                (scan_files fnmatch (effective enable dirs) dataset_path es)"
  note r1 = index_files_result[OF assms(1-4)]
  have db1: "db s1 = Database (Some (tbl sc1))" using r1(1) by simp
  have wf1: "wf_store s1" using db1 r1(2) by (simp add: wf_store_def)
  have rows1: "rows_of (db s1) = tbl sc1" using db1 by (simp add: rows_of_def)
  obtain sc2 where run2: "index_files fnmatch fs dataset_path exts pats dirs enable s1 = (Inr sc2, s2)"
    using index_files_unfold[where fs=fs and dataset_path=dataset_path and es=es and s=s1
        and d="Some (tbl sc1)" and fnmatch=fnmatch and enable=enable and exts=exts and pats=pats
        and dirs=dirs] assms(1,5) db1 by auto
  note r2 = index_files_result[OF assms(1,2) wf1 run2, unfolded rows1]
  have same: "\<forall>x \<in> set ?acc. map_of (tbl sc1) (fst x) = Some (snd x)"
    unfolding r1(3) using r1(10) by auto
  have keys: "fst ` set (tbl sc1) \<subseteq> fst ` set ?acc" using r1(4) by simp
  have gone: "filter (\<lambda>p. p \<notin> fst ` set ?acc) (map fst (tbl sc1)) = []"
    using r1(4) by (auto simp: filter_empty_conv)
  have st: "stmts sc2 = []" unfolding r2(8) gone using stmts_for_same[OF same] by simp
  have dl: "deleted sc2 = 0" unfolding r2(9) gone by simp
  have tb: "tbl sc2 = tbl sc1" using r2(11) same keys by blast
  have ex: "executed s2 = executed s1 @ [CreateTable, SelectAll, Commit]"
    using r2(1) st by simp
  have d2: "db s2 = db s1" using r2(1) tb db1 by simp
  have sn: "scanned sc2 = scanned sc1" using r1(5) r2(5) by simp
  have "r2 = Inr sc2" using run2 assms(5) by simp
  with dl st ex d2 tb sn show ?thesis by blast
qed

theorem index_files_idempotent_witness:
  "fs_data ''/data'' = Some (Dir tree_data) \<and> wf_entries tree_data \<and> wf_store store0 \<and>
   index_files glob fs_data ''/data'' (Some [''TMP'']) None None True store0
     = (Inr scan_report, store_report) \<and>
   index_files glob fs_data ''/data'' (Some [''TMP'']) None None True store_report
     = (Inr (scan_report\<lparr>stmts := []\<rparr>),
        store_report\<lparr>executed := executed store_report @ [CreateTable, SelectAll, Commit]\<rparr>) \<and>
   (\<exists>sc2. Inr (scan_report\<lparr>stmts := []\<rparr>) = (Inr sc2 :: index_error + scan) \<and>
      deleted sc2 = 0 \<and> stmts sc2 = [] \<and>
      executed (store_report\<lparr>executed := executed store_report @ [CreateTable, SelectAll, Commit]\<rparr>)
        = executed store_report @ [CreateTable, SelectAll, Commit] \<and>
      db (store_report\<lparr>executed := executed store_report @ [CreateTable, SelectAll, Commit]\<rparr>)
        = db store_report \<and>
      tbl sc2 = tbl scan_report \<and> scanned sc2 = scanned scan_report)"
  using index_files_idempotent[OF fs_data_root wf_tree_data wf_store0 run_ext_on run_again]
    fs_data_root wf_tree_data wf_store0 run_ext_on run_again
  by blast

end
